theory Spec2Isabelle
  imports Complex_Main "HOL-Library.Word" "HOL-Library.Sublist"
begin

section \<open>freud.py: the fpaper decoder and the pager\<close>

text \<open>
  A shallow embedding of \<^verbatim>\<open>src/freud.py\<close>. A byte read from the file
  (\<^verbatim>\<open>file.read(1)\<close>, a \<^verbatim>\<open>bytes\<close> object of length one) is an \<open>8 word\<close>;
  a Python \<^verbatim>\<open>str\<close> is a \<open>string\<close>. Every character the decoder can put into a
  string is below 128, because a single byte decodes as UTF-8 only when it is below
  \<open>0x80\<close>, so one \<open>char\<close> per code point is exact. An exception is a value \<open>Inl e\<close>.
\<close>

type_synonym byte = "8 word"

datatype error = OSError | UnicodeDecodeError

text \<open>
  What the program reads from its surroundings: the files that can be opened (with their
  contents), the window size the terminal reports (\<^verbatim>\<open>TIOCGWINSZ\<close>: rows, then columns),
  and the value of \<^verbatim>\<open>platform.system()\<close>.
\<close>

record env =
  files :: "string \<Rightarrow> byte list option"
  term_rows :: nat
  term_cols :: nat
  platform_system :: string

text \<open>\<^verbatim>\<open>get_terminal_size\<close> returns \<^verbatim>\<open>rows, cols\<close>, in this order.\<close>

definition get_terminal_size :: "env \<Rightarrow> nat \<times> nat" where
  "get_terminal_size e = (term_rows e, term_cols e)"

subsection \<open>FPaperMarkers\<close>

definition START_MARKER :: byte where "START_MARKER = 0x02"
definition START_MARKER_2 :: byte where "START_MARKER_2 = 0x46"
definition START_MARKER_3 :: byte where "START_MARKER_3 = 0x50"
definition START_MARKER_4 :: byte where "START_MARKER_4 = 0x61"
definition START_MARKER_5 :: byte where "START_MARKER_5 = 0x67"
definition START_MARKER_6 :: byte where "START_MARKER_6 = 0x65"
definition START_OF_TEXT :: byte where "START_OF_TEXT = 0x26"
definition END_OF_TEXT :: byte where "END_OF_TEXT = 0x15"
definition STYLE_MARKER :: byte where "STYLE_MARKER = 0x1A"
definition LIGHT_SET :: byte where "LIGHT_SET = 0x30"
definition BOLD_SET :: byte where "BOLD_SET = 0x31"
definition DIM_SET :: byte where "DIM_SET = 0x32"
definition ITALIC_SET :: byte where "ITALIC_SET = 0x33"
definition UNDERLINED_SET :: byte where "UNDERLINED_SET = 0x34"
definition BLINK_SET :: byte where "BLINK_SET = 0x35"
definition RAPID_BLINK_SET :: byte where "RAPID_BLINK_SET = 0x36"
definition COLOR_RESET :: byte where "COLOR_RESET = 0x72"
definition ALIGN_LEFT_SET :: byte where "ALIGN_LEFT_SET = 0x7B"
definition ALIGN_CENTER_SET :: byte where "ALIGN_CENTER_SET = 0x7C"
definition ALIGN_RIGHT_SET :: byte where "ALIGN_RIGHT_SET = 0x7D"
definition ALIGN_RESET :: byte where "ALIGN_RESET = 0x7E"

text \<open>
  The predicates of the class, \<^verbatim>\<open>True if ch == self.X else False\<close>. The decoder
  reaches them through its field \<^verbatim>\<open>check\<close>, whence the prefix (the decoder has
  flags of the same names).
\<close>

definition check_is_start_marker :: "byte \<Rightarrow> bool" where
  "check_is_start_marker ch = (if ch = START_MARKER then True else False)"
definition check_is_start_marker_2 :: "byte \<Rightarrow> bool" where
  "check_is_start_marker_2 ch = (if ch = START_MARKER_2 then True else False)"
definition check_is_start_marker_3 :: "byte \<Rightarrow> bool" where
  "check_is_start_marker_3 ch = (if ch = START_MARKER_3 then True else False)"
definition check_is_start_marker_4 :: "byte \<Rightarrow> bool" where
  "check_is_start_marker_4 ch = (if ch = START_MARKER_4 then True else False)"
definition check_is_start_marker_5 :: "byte \<Rightarrow> bool" where
  "check_is_start_marker_5 ch = (if ch = START_MARKER_5 then True else False)"
definition check_is_start_marker_6 :: "byte \<Rightarrow> bool" where
  "check_is_start_marker_6 ch = (if ch = START_MARKER_6 then True else False)"
definition check_is_start_of_text :: "byte \<Rightarrow> bool" where
  "check_is_start_of_text ch = (if ch = START_OF_TEXT then True else False)"
definition check_is_end_of_text :: "byte \<Rightarrow> bool" where
  "check_is_end_of_text ch = (if ch = END_OF_TEXT then True else False)"
definition check_is_style_marker :: "byte \<Rightarrow> bool" where
  "check_is_style_marker ch = (if ch = STYLE_MARKER then True else False)"
definition check_is_light_marker :: "byte \<Rightarrow> bool" where
  "check_is_light_marker ch = (if ch = LIGHT_SET then True else False)"
definition check_is_bold_marker :: "byte \<Rightarrow> bool" where
  "check_is_bold_marker ch = (if ch = BOLD_SET then True else False)"
definition check_is_dim_marker :: "byte \<Rightarrow> bool" where
  "check_is_dim_marker ch = (if ch = DIM_SET then True else False)"
definition check_is_italic_marker :: "byte \<Rightarrow> bool" where
  "check_is_italic_marker ch = (if ch = ITALIC_SET then True else False)"
definition check_is_underlined_marker :: "byte \<Rightarrow> bool" where
  "check_is_underlined_marker ch = (if ch = UNDERLINED_SET then True else False)"
definition check_is_blink_marker :: "byte \<Rightarrow> bool" where
  "check_is_blink_marker ch = (if ch = BLINK_SET then True else False)"
definition check_is_rapid_marker :: "byte \<Rightarrow> bool" where
  "check_is_rapid_marker ch = (if ch = RAPID_BLINK_SET then True else False)"
definition check_is_color_reset :: "byte \<Rightarrow> bool" where
  "check_is_color_reset ch = (if ch = COLOR_RESET then True else False)"
definition check_is_left_align :: "byte \<Rightarrow> bool" where
  "check_is_left_align ch = (if ch = ALIGN_LEFT_SET then True else False)"
definition check_is_center_align :: "byte \<Rightarrow> bool" where
  "check_is_center_align ch = (if ch = ALIGN_CENTER_SET then True else False)"
definition check_is_right_align :: "byte \<Rightarrow> bool" where
  "check_is_right_align ch = (if ch = ALIGN_RIGHT_SET then True else False)"
definition check_is_reset_align :: "byte \<Rightarrow> bool" where
  "check_is_reset_align ch = (if ch = ALIGN_RESET then True else False)"

subsection \<open>Strings and bytes of Python\<close>

text \<open>
  \<^verbatim>\<open>ch.decode('utf-8')\<close> on one byte: the character of that code when the byte is
  below \<open>0x80\<close>, \<^verbatim>\<open>UnicodeDecodeError\<close> otherwise (a lone continuation byte, a
  lead byte with nothing after it, or a byte that is never valid).
\<close>

definition decode_utf8 :: "byte \<Rightarrow> error + char" where
  "decode_utf8 ch = (if ch < 0x80 then Inr (char_of (unat ch)) else Inl UnicodeDecodeError)"

text \<open>\<^verbatim>\<open>ord\<close> of a character.\<close>

definition ord :: "char \<Rightarrow> nat" where
  "ord c = of_char c"

text \<open>The decimal digits of a number, as \<^verbatim>\<open>{data - 10}\<close> in an f-string writes them.\<close>

fun str_of_nat :: "nat \<Rightarrow> string" where
  "str_of_nat n =
     (if n < 10 then [char_of (48 + n)]
      else str_of_nat (n div 10) @ [char_of (48 + n mod 10)])"

declare str_of_nat.simps [simp del]

definition ESC :: char where
  "ESC = CHR 0x1B"

subsection \<open>FPaper_Extract\<close>

text \<open>
  The fields of the object. \<open>ext_w\<close> and \<open>ext_h\<close> are \<^verbatim>\<open>__w__\<close> and
  \<^verbatim>\<open>__h__\<close>; \<^verbatim>\<open>check\<close> is the class of the markers above.
\<close>

record fpaper_extract =
  filename :: string
  extracted_text :: string
  get_align_text :: string
  is_start_marker :: bool
  is_start_marker_2 :: bool
  is_start_marker_3 :: bool
  is_start_marker_4 :: bool
  is_start_marker_5 :: bool
  is_start_marker_6 :: bool
  is_start_of_text :: bool
  is_end_of_text :: bool
  is_style_marker :: bool
  is_align :: bool
  is_left_align :: bool
  is_center_align :: bool
  is_right_align :: bool
  is_reset_align :: bool
  ext_w :: nat
  ext_h :: nat

text \<open>
  \<^verbatim>\<open>__init__\<close>. The last line is
  \<^verbatim>\<open>self.__w__, self.__h__ = get_terminal_size()\<close>: the first component, the rows,
  goes to \<^verbatim>\<open>__w__\<close>.
\<close>

definition FPaper_Extract_init :: "env \<Rightarrow> string \<Rightarrow> fpaper_extract" where
  "FPaper_Extract_init e fname =
     (let (a, b) = get_terminal_size e in
      \<lparr> filename = fname, extracted_text = [], get_align_text = [],
        is_start_marker = False, is_start_marker_2 = False, is_start_marker_3 = False,
        is_start_marker_4 = False, is_start_marker_5 = False, is_start_marker_6 = False,
        is_start_of_text = False, is_end_of_text = False, is_style_marker = False,
        is_align = False, is_left_align = False, is_center_align = False,
        is_right_align = False, is_reset_align = False,
        ext_w = a, ext_h = b \<rparr>)"

text \<open>\<^verbatim>\<open>for i in range(0, width): self.extracted_text += ' '\<close>\<close>

primrec add_spaces :: "nat \<Rightarrow> fpaper_extract \<Rightarrow> fpaper_extract" where
  "add_spaces 0 s = s"
| "add_spaces (Suc n) s = add_spaces n (s\<lparr>extracted_text := extracted_text s @ '' ''\<rparr>)"

definition left :: "fpaper_extract \<Rightarrow> nat \<Rightarrow> string \<Rightarrow> fpaper_extract" where
  "left s width text = add_spaces width (s\<lparr>extracted_text := extracted_text s @ text\<rparr>)"

definition center :: "fpaper_extract \<Rightarrow> nat \<Rightarrow> string \<Rightarrow> fpaper_extract" where
  "center s width text =
     (let s1 = add_spaces width s;
          s2 = s1\<lparr>extracted_text := extracted_text s1 @ text\<rparr>
      in add_spaces width s2)"

definition right :: "fpaper_extract \<Rightarrow> nat \<Rightarrow> string \<Rightarrow> fpaper_extract" where
  "right s width text =
     (let s1 = add_spaces (width * 2) s
      in s1\<lparr>extracted_text := extracted_text s1 @ text\<rparr>)"

text \<open>\<^verbatim>\<open>self.extracted_text += t\<close>\<close>

definition emit :: "fpaper_extract \<Rightarrow> string \<Rightarrow> fpaper_extract" where
  "emit s t = s\<lparr>extracted_text := extracted_text s @ t\<rparr>"

text \<open>
  \<^verbatim>\<open>detect_style\<close>, branch by branch in the order of the source. The last branch
  decodes the byte before it looks at its value, so it raises on a byte from \<open>0x80\<close> on.
\<close>

definition detect_style :: "env \<Rightarrow> fpaper_extract \<Rightarrow> byte \<Rightarrow> error + fpaper_extract" where
  "detect_style e s ch =
     (if check_is_light_marker ch then Inr (emit s (ESC # ''[0m''))
      else if check_is_bold_marker ch then Inr (emit s (ESC # ''[1m''))
      else if check_is_dim_marker ch then Inr (emit s (ESC # ''[2m''))
      else if check_is_italic_marker ch then Inr (emit s (ESC # ''[3m''))
      else if check_is_underlined_marker ch then Inr (emit s (ESC # ''[4m''))
      else if check_is_blink_marker ch then Inr (emit s (ESC # ''[5m''))
      else if check_is_rapid_marker ch then
        (if platform_system e = ''Windows'' then Inr (emit s (ESC # ''[6m'')) else Inr s)
      else if check_is_left_align ch then
        Inr (s\<lparr>is_align := True, is_right_align := False, is_center_align := False,
               is_reset_align := False, is_left_align := True\<rparr>)
      else if check_is_center_align ch then
        Inr (s\<lparr>is_align := True, is_right_align := False, is_left_align := False,
               is_reset_align := False, is_center_align := True\<rparr>)
      else if check_is_right_align ch then
        Inr (s\<lparr>is_align := True, is_center_align := False, is_left_align := False,
               is_reset_align := False, is_right_align := True\<rparr>)
      else if check_is_reset_align ch then
        (let s1 = (if is_center_align s then center s (ext_w s) (get_align_text s)
                   else if is_left_align s then left s (ext_w s) (get_align_text s)
                   else if is_right_align s then right s (ext_w s) (get_align_text s)
                   else s)
         in Inr (s1\<lparr>is_align := False, is_center_align := False, is_left_align := False,
                     is_reset_align := False, is_right_align := False,
                     get_align_text := []\<rparr>))
      else if check_is_color_reset ch then Inr (emit s (ESC # ''[0m''))
      else
        (case decode_utf8 ch of
           Inl err \<Rightarrow> Inl err
         | Inr c \<Rightarrow>
             (let data = ord c in
              if (40 \<le> data \<and> data \<le> 49) \<or> (100 \<le> data \<and> data \<le> 109)
              then Inr (emit s (ESC # ''['' @ str_of_nat (data - 10) @ ''m''))
              else Inr s)))"

text \<open>
  \<^verbatim>\<open>detect\<close>. The pending style argument comes first; then the chain of
  \<^verbatim>\<open>if not ... elif not ...\<close> over the prologue flags, each of which only ever
  assigns the result of its comparison; then the text region.
\<close>

definition detect :: "env \<Rightarrow> fpaper_extract \<Rightarrow> byte \<Rightarrow> error + fpaper_extract" where
  "detect e s ch =
     (if is_style_marker s then
        (case detect_style e s ch of
           Inl err \<Rightarrow> Inl err
         | Inr s1 \<Rightarrow> Inr (s1\<lparr>is_style_marker := False\<rparr>))
      else if \<not> is_start_marker s then
        Inr (s\<lparr>is_start_marker := check_is_start_marker ch\<rparr>)
      else if \<not> is_start_marker_2 s then
        Inr (s\<lparr>is_start_marker_2 := check_is_start_marker_2 ch\<rparr>)
      else if \<not> is_start_marker_3 s then
        Inr (s\<lparr>is_start_marker_3 := check_is_start_marker_3 ch\<rparr>)
      else if \<not> is_start_marker_4 s then
        Inr (s\<lparr>is_start_marker_4 := check_is_start_marker_4 ch\<rparr>)
      else if \<not> is_start_marker_5 s then
        Inr (s\<lparr>is_start_marker_5 := check_is_start_marker_5 ch\<rparr>)
      else if \<not> is_start_marker_6 s then
        Inr (s\<lparr>is_start_marker_6 := check_is_start_marker_6 ch\<rparr>)
      else if \<not> is_start_of_text s then
        Inr (s\<lparr>is_start_of_text := check_is_start_of_text ch\<rparr>)
      else if is_start_of_text s then
        (if check_is_style_marker ch then Inr (s\<lparr>is_style_marker := True\<rparr>)
         else if check_is_end_of_text ch then Inr (s\<lparr>is_end_of_text := True\<rparr>)
         else if is_align s then
           (case decode_utf8 ch of
              Inl err \<Rightarrow> Inl err
            | Inr c \<Rightarrow> Inr (s\<lparr>get_align_text := get_align_text s @ [c]\<rparr>))
         else
           (case decode_utf8 ch of
              Inl err \<Rightarrow> Inl err
            | Inr c \<Rightarrow> Inr (s\<lparr>extracted_text := extracted_text s @ [c]\<rparr>)))
      else Inr s)"

text \<open>
  The loop of \<^verbatim>\<open>extract\<close> over the bytes still unread:
  \<^verbatim>\<open>while byte: if self.is_end_of_text: break; self.detect(byte); byte = file.read(1)\<close>.
\<close>

fun extract_loop :: "env \<Rightarrow> fpaper_extract \<Rightarrow> byte list \<Rightarrow> error + fpaper_extract" where
  "extract_loop e s [] = Inr s"
| "extract_loop e s (byte # rest) =
     (if is_end_of_text s then Inr s
      else (case detect e s byte of
              Inl err \<Rightarrow> Inl err
            | Inr s1 \<Rightarrow> extract_loop e s1 rest))"

text \<open>
  \<^verbatim>\<open>extract\<close>: open the file (\<^verbatim>\<open>OSError\<close> when it cannot be opened), run the
  loop, return \<^verbatim>\<open>self.extracted_text\<close>. \<open>extract_from\<close> is the part after the
  file is open, on the bytes of the file.
\<close>

definition extract_from :: "env \<Rightarrow> fpaper_extract \<Rightarrow> byte list \<Rightarrow> error + string" where
  "extract_from e s bytes =
     (case extract_loop e s bytes of
        Inl err \<Rightarrow> Inl err
      | Inr s1 \<Rightarrow> Inr (extracted_text s1))"

definition "extract" :: "env \<Rightarrow> fpaper_extract \<Rightarrow> error + string" where
  "extract e s =
     (case files e (filename s) of
        None \<Rightarrow> Inl OSError
      | Some bytes \<Rightarrow> extract_from e s bytes)"

subsection \<open>Totem\<close>

text \<open>
  \<^verbatim>\<open>str.splitlines()\<close> on a string of characters below 128: a line ends at
  \<^verbatim>\<open>\n\<close>, \<^verbatim>\<open>\r\<close>, \<^verbatim>\<open>\r\n\<close>, \<^verbatim>\<open>\v\<close>, \<^verbatim>\<open>\f\<close>,
  \<^verbatim>\<open>\x1c\<close>, \<^verbatim>\<open>\x1d\<close> or \<^verbatim>\<open>\x1e\<close>; the line ends are not kept, and
  there is no empty last line.
\<close>

definition is_line_boundary :: "char \<Rightarrow> bool" where
  "is_line_boundary c =
     (c = CHR 0x0A \<or> c = CHR 0x0B \<or> c = CHR 0x0C \<or> c = CHR 0x0D \<or>
      c = CHR 0x1C \<or> c = CHR 0x1D \<or> c = CHR 0x1E)"

fun splitlines_from :: "string \<Rightarrow> string \<Rightarrow> string list" where
  "splitlines_from cur [] = (if cur = [] then [] else [cur])"
| "splitlines_from cur [c] =
     (if is_line_boundary c then [cur] else [cur @ [c]])"
| "splitlines_from cur (c # d # cs) =
     (if c = CHR 0x0D \<and> d = CHR 0x0A then cur # splitlines_from [] cs
      else if is_line_boundary c then cur # splitlines_from [] (d # cs)
      else splitlines_from (cur @ [c]) (d # cs))"

definition splitlines :: "string \<Rightarrow> string list" where
  "splitlines text = splitlines_from [] text"

text \<open>
  The fields of the pager that the key loop reads and writes: \<open>up\<close>, \<open>down\<close>
  and \<open>full_length\<close> are \<^verbatim>\<open>__up__\<close>, \<^verbatim>\<open>__down__\<close> and
  \<^verbatim>\<open>__full_length__\<close>, \<open>tot_w\<close> and \<open>tot_h\<close> are \<^verbatim>\<open>__w__\<close> and
  \<^verbatim>\<open>__h__\<close>. \<^verbatim>\<open>__down__\<close> becomes a float in \<^verbatim>\<open>init_buffer\<close>
  (\<^verbatim>\<open>self.__h__ / 3.95\<close>); it is a rational here, and the quotient, the additions
  and the comparison with an integer are the exact ones. A binary64 value differs from
  the exact one by a rounding error of relative size \<open>2\<^sup>-\<^sup>5\<^sup>3\<close>. What is printed
  and the saved terminal attributes are left out.
\<close>

record totem =
  file_data :: string
  up :: int
  down :: rat
  full_length :: int
  tot_w :: nat
  tot_h :: nat

text \<open>
  \<^verbatim>\<open>Totem.__init__\<close>: decode the file, count the lines. An exception of the decoder
  leaves the constructor.
\<close>

definition Totem_init :: "env \<Rightarrow> string \<Rightarrow> error + totem" where
  "Totem_init e fname =
     (case extract e (FPaper_Extract_init e fname) of
        Inl err \<Rightarrow> Inl err
      | Inr text \<Rightarrow>
          (let n = int (length (splitlines text));
               (a, b) = get_terminal_size e
           in Inr \<lparr> file_data = text, up = 0, down = of_int n, full_length = n,
                    tot_w = a, tot_h = b \<rparr>))"

text \<open>\<^verbatim>\<open>ch.lower()\<close> of one character (the letters A to Z change).\<close>

definition lower :: "char \<Rightarrow> char" where
  "lower c = (let n = (of_char c :: nat) in if 65 \<le> n \<and> n \<le> 90 then char_of (n + 32) else c)"

text \<open>
  The body of the key loop after its three reads, with \<open>ch\<close> the third character read:
  \<^verbatim>\<open>
  if ch == 'A':
      if 1 <= self.__up__: self.__up__ -= 1; self.__down__ -= 1; ...; continue
  if ch == 'B':
      if self.__down__ < self.__full_length__: self.__down__ += 1; self.__up__ += 1; ...; continue
  \<close>
\<close>

definition scroll :: "totem \<Rightarrow> char \<Rightarrow> totem" where
  "scroll t ch =
     (if ch = CHR ''A'' \<and> 1 \<le> up t
      then t\<lparr>up := up t - 1, down := down t - 1\<rparr>
      else if ch = CHR ''B'' then
        (if down t < of_int (full_length t)
         then t\<lparr>down := down t + 1, up := up t + 1\<rparr>
         else t)
      else t)"

text \<open>
  The loop \<^verbatim>\<open>while True\<close> of \<^verbatim>\<open>init_buffer\<close> over the characters that
  \<^verbatim>\<open>getchar\<close> will deliver. It is left by \<^verbatim>\<open>break\<close> on \<^verbatim>\<open>q\<close> or
  \<^verbatim>\<open>Q\<close> (\<open>Quit\<close>); when the characters are used up, the next
  \<^verbatim>\<open>getchar\<close> waits (\<open>Waiting\<close>). After a first character that is not
  \<^verbatim>\<open>q\<close> the loop reads two more, whatever the first one was, and only looks at the
  last of the three.
\<close>

datatype outcome = Quit totem | Waiting totem


fun key_loop :: "totem \<Rightarrow> string \<Rightarrow> outcome" where
  "key_loop t [] = Waiting t"
| "key_loop t [c1] = (if lower c1 = CHR ''q'' then Quit t else Waiting t)"
| "key_loop t [c1, c2] = (if lower c1 = CHR ''q'' then Quit t else Waiting t)"
| "key_loop t (c1 # c2 # c3 # rest) =
     (if lower c1 = CHR ''q'' then Quit t else key_loop (scroll t c3) rest)"


subsection \<open>Sample inputs\<close>

text \<open>
  A terminal of 24 rows and 80 columns on Linux, with one file \<^verbatim>\<open>doc.fpaper\<close> of the
  given bytes.
\<close>

definition sample_env :: "byte list \<Rightarrow> env" where
  "sample_env bytes =
     \<lparr> files = (\<lambda>name. if name = ''doc.fpaper'' then Some bytes else None),
       term_rows = 24, term_cols = 80, platform_system = ''Linux'' \<rparr>"

text \<open>The six bytes of the prologue and the start of the text.\<close>

definition prologue :: "byte list" where
  "prologue = [0x02, 0x46, 0x50, 0x61, 0x67, 0x65, 0x26]"

text \<open>A pager over five lines on that terminal, as \<^verbatim>\<open>Totem.__init__\<close> leaves it.\<close>

definition sample_totem :: totem where
  "sample_totem =
     \<lparr> file_data = [CHR ''a'', CHR 0x0A, CHR ''b'', CHR 0x0A, CHR ''c'', CHR 0x0A,
                     CHR ''d'', CHR 0x0A, CHR ''e''],
       up = 0, down = 5, full_length = 5, tot_w = 24, tot_h = 80 \<rparr>"

section \<open>Properties\<close>

lemmas marker_defs =
  START_MARKER_def START_MARKER_2_def START_MARKER_3_def START_MARKER_4_def
  START_MARKER_5_def START_MARKER_6_def START_OF_TEXT_def END_OF_TEXT_def
  STYLE_MARKER_def LIGHT_SET_def BOLD_SET_def DIM_SET_def ITALIC_SET_def
  UNDERLINED_SET_def BLINK_SET_def RAPID_BLINK_SET_def COLOR_RESET_def
  ALIGN_LEFT_SET_def ALIGN_CENTER_SET_def ALIGN_RIGHT_SET_def ALIGN_RESET_def

lemmas check_defs =
  check_is_start_marker_def check_is_start_marker_2_def check_is_start_marker_3_def
  check_is_start_marker_4_def check_is_start_marker_5_def check_is_start_marker_6_def
  check_is_start_of_text_def check_is_end_of_text_def check_is_style_marker_def
  check_is_light_marker_def check_is_bold_marker_def check_is_dim_marker_def
  check_is_italic_marker_def check_is_underlined_marker_def check_is_blink_marker_def
  check_is_rapid_marker_def check_is_color_reset_def check_is_left_align_def
  check_is_center_align_def check_is_right_align_def check_is_reset_align_def

subsection \<open>Helper facts\<close>

lemma add_spaces_eq:
  "add_spaces n s = s\<lparr>extracted_text := extracted_text s @ replicate n CHR '' ''\<rparr>"
proof (induction n arbitrary: s)
  case 0
  show ?case by simp
next
  case (Suc n)
  show ?case by (simp add: Suc.IH replicate_app_Cons_same)
qed

lemma ord_char_of: "n < 256 \<Longrightarrow> ord (char_of n) = n"
  by (simp add: ord_def)

lemma unat_byte_lt: "unat (ch :: byte) < 256"
proof -
  have "unat ch < 2 ^ LENGTH(8)"
    by (rule unsigned_less)
  then show ?thesis by simp
qed

lemma char_of_A: "char_of (65::nat) = CHR ''A''"
  by code_simp

lemma char_of_B: "char_of (66::nat) = CHR ''B''"
  by code_simp

lemma char_of_h: "char_of (104::nat) = CHR ''h''"
  by code_simp

lemma char_of_i: "char_of (105::nat) = CHR ''i''"
  by code_simp

lemma str_of_nat_32: "str_of_nat 32 = ''32''"
  by code_simp

lemma str_of_nat_95: "str_of_nat 95 = ''95''"
  by code_simp

lemma detect_style_seven_bit: "ch < 0x80 \<Longrightarrow> \<exists>s'. detect_style e s ch = Inr s'"
  by (auto simp: detect_style_def decode_utf8_def Let_def)

lemma detect_seven_bit: "ch < 0x80 \<Longrightarrow> \<exists>s'. detect e s ch = Inr s'"
  using detect_style_seven_bit [of ch e s]
  by (auto simp: detect_def decode_utf8_def)

lemma extract_loop_seven_bit:
  "\<forall>b\<in>set bs. b < 0x80 \<Longrightarrow> \<exists>s'. extract_loop e s bs = Inr s'"
proof (induction bs arbitrary: s)
  case Nil
  show ?case by simp
next
  case (Cons b bs)
  then obtain s1 where "detect e s b = Inr s1"
    using detect_seven_bit [of b e s] by auto
  with Cons show ?case by simp
qed

lemma detect_style_unknown:
  assumes "ch < 0x80"
    and "ch \<notin> {LIGHT_SET, BOLD_SET, DIM_SET, ITALIC_SET, UNDERLINED_SET, BLINK_SET,
                 RAPID_BLINK_SET, ALIGN_LEFT_SET, ALIGN_CENTER_SET, ALIGN_RIGHT_SET,
                 ALIGN_RESET, COLOR_RESET}"
    and "\<not> (40 \<le> unat ch \<and> unat ch \<le> 49)" and "\<not> (100 \<le> unat ch \<and> unat ch \<le> 109)"
  shows "detect_style e s ch = Inr s"
  using assms
  by (auto simp: detect_style_def check_defs decode_utf8_def ord_char_of unat_byte_lt Let_def)

lemma detect_style_prefix:
  "detect_style e s ch = Inr s' \<Longrightarrow> prefix (extracted_text s) (extracted_text s')"
  by (auto simp: detect_style_def emit_def left_def center_def right_def add_spaces_eq Let_def
      split: if_splits sum.splits)

subsection \<open>The decoder and bytes it cannot decode\<close>

text \<open>
  C1, as the spec has it: decoding never raises, whatever bytes stand in the text region.
  It fails on the code: after the prologue and the start of the text, the byte \<open>0xFF\<close>
  reaches \<^verbatim>\<open>ch.decode('utf-8')\<close>, and \<^verbatim>\<open>extract\<close> leaves with
  \<^verbatim>\<open>UnicodeDecodeError\<close>.
\<close>

theorem extract_raises_on_byte_0xFF:
  "extract (sample_env (prologue @ [0xFF]))
     (FPaper_Extract_init (sample_env (prologue @ [0xFF])) ''doc.fpaper'')
   = Inl UnicodeDecodeError"
  by (simp add: extract_def extract_from_def sample_env_def prologue_def
      FPaper_Extract_init_def get_terminal_size_def detect_def check_defs marker_defs
      decode_utf8_def)

text \<open>
  C1, amended to the streams whose bytes are all below \<open>0x80\<close>: a file that cannot be
  opened gives \<^verbatim>\<open>OSError\<close>; a file of such bytes is decoded to the end and a text
  is returned, from whatever state the decoder starts in; and a style argument below
  \<open>0x80\<close> that is neither one of the twelve codes of the table nor in 40..49 or
  100..109 leaves the decoder as it was.
\<close>

theorem extract_completes_on_seven_bit_bytes:
  "(files e (filename s) = None \<longrightarrow> extract e s = Inl OSError) \<and>
   (\<forall>bytes. files e (filename s) = Some bytes \<and> (\<forall>b\<in>set bytes. b < 0x80)
      \<longrightarrow> (\<exists>text. extract e s = Inr text)) \<and>
   (\<forall>ch. ch < 0x80 \<and>
      ch \<notin> {LIGHT_SET, BOLD_SET, DIM_SET, ITALIC_SET, UNDERLINED_SET, BLINK_SET,
              RAPID_BLINK_SET, ALIGN_LEFT_SET, ALIGN_CENTER_SET, ALIGN_RIGHT_SET,
              ALIGN_RESET, COLOR_RESET} \<and>
      \<not> (40 \<le> unat ch \<and> unat ch \<le> 49) \<and> \<not> (100 \<le> unat ch \<and> unat ch \<le> 109)
      \<longrightarrow> detect_style e s ch = Inr s)"
proof (intro conjI allI impI)
  assume "files e (filename s) = None"
  then show "extract e s = Inl OSError"
    by (simp add: extract_def)
next
  fix bytes
  assume a: "files e (filename s) = Some bytes \<and> (\<forall>b\<in>set bytes. b < 0x80)"
  then obtain s' where "extract_loop e s bytes = Inr s'"
    using extract_loop_seven_bit [of bytes e s] by blast
  with a show "\<exists>text. extract e s = Inr text"
    by (simp add: extract_def extract_from_def)
next
  fix ch :: byte
  assume "ch < 0x80 \<and>
      ch \<notin> {LIGHT_SET, BOLD_SET, DIM_SET, ITALIC_SET, UNDERLINED_SET, BLINK_SET,
              RAPID_BLINK_SET, ALIGN_LEFT_SET, ALIGN_CENTER_SET, ALIGN_RIGHT_SET,
              ALIGN_RESET, COLOR_RESET} \<and>
      \<not> (40 \<le> unat ch \<and> unat ch \<le> 49) \<and> \<not> (100 \<le> unat ch \<and> unat ch \<le> 109)"
  then show "detect_style e s ch = Inr s"
    using detect_style_unknown [of ch e s] by blast
qed

theorem extract_completes_on_seven_bit_bytes_witness:
  "(\<exists>text. extract (sample_env (prologue @ [0x41, 0x1A, 0x3C]))
      (FPaper_Extract_init (sample_env (prologue @ [0x41, 0x1A, 0x3C])) ''doc.fpaper'')
      = Inr text) \<and>
   extract (sample_env [])
      (FPaper_Extract_init (sample_env []) ''missing.fpaper'') = Inl OSError \<and>
   detect_style (sample_env []) (FPaper_Extract_init (sample_env []) ''doc.fpaper'') 0x3C
     = Inr (FPaper_Extract_init (sample_env []) ''doc.fpaper'')"
proof -
  let ?bs = "prologue @ [0x41, 0x1A, 0x3C :: byte]"
  have b: "\<forall>b\<in>set ?bs. b < (0x80 :: byte)"
    by (simp add: prologue_def)
  have f: "files (sample_env ?bs) (filename (FPaper_Extract_init (sample_env ?bs) ''doc.fpaper''))
      = Some ?bs"
    by (simp add: sample_env_def FPaper_Extract_init_def get_terminal_size_def)
  have n: "files (sample_env []) (filename (FPaper_Extract_init (sample_env []) ''missing.fpaper''))
      = None"
    by (simp add: sample_env_def FPaper_Extract_init_def get_terminal_size_def)
  have u: "(0x3C :: byte) < 0x80 \<and>
      (0x3C :: byte) \<notin> {LIGHT_SET, BOLD_SET, DIM_SET, ITALIC_SET, UNDERLINED_SET, BLINK_SET,
              RAPID_BLINK_SET, ALIGN_LEFT_SET, ALIGN_CENTER_SET, ALIGN_RIGHT_SET,
              ALIGN_RESET, COLOR_RESET} \<and>
      \<not> (40 \<le> unat (0x3C :: byte) \<and> unat (0x3C :: byte) \<le> 49) \<and>
      \<not> (100 \<le> unat (0x3C :: byte) \<and> unat (0x3C :: byte) \<le> 109)"
    by (simp add: marker_defs)
  from extract_completes_on_seven_bit_bytes
      [of "sample_env ?bs" "FPaper_Extract_init (sample_env ?bs) ''doc.fpaper''"] b f
  have 1: "\<exists>text. extract (sample_env ?bs)
      (FPaper_Extract_init (sample_env ?bs) ''doc.fpaper'') = Inr text"
    by blast
  from extract_completes_on_seven_bit_bytes
      [of "sample_env []" "FPaper_Extract_init (sample_env []) ''missing.fpaper''"] n
  have 2: "extract (sample_env [])
      (FPaper_Extract_init (sample_env []) ''missing.fpaper'') = Inl OSError"
    by blast
  from extract_completes_on_seven_bit_bytes
      [of "sample_env []" "FPaper_Extract_init (sample_env []) ''doc.fpaper''"] u
  have 3: "detect_style (sample_env []) (FPaper_Extract_init (sample_env []) ''doc.fpaper'') 0x3C
     = Inr (FPaper_Extract_init (sample_env []) ''doc.fpaper'')"
    by blast
  from 1 2 3 show ?thesis by blast
qed

subsection \<open>Style arguments\<close>

text \<open>
  C2, as the spec has it, says that the argument byte 50 gives no escape sequence. It
  fails on the code: 50 is \<open>0x32\<close>, the code \<^verbatim>\<open>DIM_SET\<close>, and the decoder, waiting
  for a style argument with nothing decoded so far, appends \<^verbatim>\<open>ESC[2m\<close>.
\<close>

theorem style_argument_50_emits_dim:
  "detect (sample_env [])
     ((FPaper_Extract_init (sample_env []) ''doc.fpaper'')\<lparr>is_style_marker := True\<rparr>) 50
   = Inr ((FPaper_Extract_init (sample_env []) ''doc.fpaper'')
            \<lparr>extracted_text := ESC # ''[2m''\<rparr>)"
  by (simp add: detect_def detect_style_def check_defs marker_defs emit_def
      FPaper_Extract_init_def get_terminal_size_def)

text \<open>
  C2, amended: in any state that waits for a style argument, the byte 42 appends
  \<^verbatim>\<open>ESC[32m\<close>, the byte 105 appends \<^verbatim>\<open>ESC[95m\<close>, the byte 50 (the dim code)
  appends \<^verbatim>\<open>ESC[2m\<close>, and the byte 60, which is outside both ranges and no code of
  the table, appends nothing; each time the wait for an argument ends and nothing else
  changes.
\<close>

theorem generic_style_arguments:
  "detect e (s\<lparr>is_style_marker := True\<rparr>) 42
     = Inr (s\<lparr>extracted_text := extracted_text s @ ESC # ''[32m'', is_style_marker := False\<rparr>) \<and>
   detect e (s\<lparr>is_style_marker := True\<rparr>) 105
     = Inr (s\<lparr>extracted_text := extracted_text s @ ESC # ''[95m'', is_style_marker := False\<rparr>) \<and>
   detect e (s\<lparr>is_style_marker := True\<rparr>) 50
     = Inr (s\<lparr>extracted_text := extracted_text s @ ESC # ''[2m'', is_style_marker := False\<rparr>) \<and>
   detect e (s\<lparr>is_style_marker := True\<rparr>) 60
     = Inr (s\<lparr>is_style_marker := False\<rparr>)"
  by (simp add: detect_def detect_style_def check_defs marker_defs decode_utf8_def emit_def
      ord_char_of str_of_nat_32 str_of_nat_95)

subsection \<open>A whole document\<close>

text \<open>
  C7: the file of the six prologue bytes, the start of the text, \<^verbatim>\<open>A\<close>, the style
  marker, the bold code, \<^verbatim>\<open>B\<close> and the end of the text decodes to \<^verbatim>\<open>A\<close>,
  \<^verbatim>\<open>ESC[1m\<close>, \<^verbatim>\<open>B\<close>, on any terminal and platform.
\<close>

theorem decode_bold_document:
  "extract_from e (FPaper_Extract_init e fname)
     [START_MARKER, START_MARKER_2, START_MARKER_3, START_MARKER_4, START_MARKER_5,
      START_MARKER_6, START_OF_TEXT, 0x41, STYLE_MARKER, BOLD_SET, 0x42, END_OF_TEXT]
   = Inr (''A'' @ ESC # ''[1m'' @ ''B'')"
  by (simp add: extract_from_def FPaper_Extract_init_def get_terminal_size_def
      detect_def detect_style_def check_defs marker_defs decode_utf8_def emit_def
      char_of_A char_of_B)

subsection \<open>Left alignment\<close>

text \<open>
  C4: a document that sets left alignment, has the text \<^verbatim>\<open>hi\<close> and resets the
  alignment. On a terminal of 24 rows and 80 columns the decoder returns \<^verbatim>\<open>hi\<close> and
  24 spaces: \<^verbatim>\<open>__w__\<close> holds the rows, the first component of what
  \<^verbatim>\<open>get_terminal_size\<close> returns, not the 80 columns.
\<close>

theorem left_alignment_pads_by_rows:
  "extract (sample_env (prologue @ [STYLE_MARKER, ALIGN_LEFT_SET, 0x68, 0x69,
                                     STYLE_MARKER, ALIGN_RESET]))
     (FPaper_Extract_init
        (sample_env (prologue @ [STYLE_MARKER, ALIGN_LEFT_SET, 0x68, 0x69,
                                 STYLE_MARKER, ALIGN_RESET])) ''doc.fpaper'')
   = Inr (''hi'' @ replicate 24 CHR '' '') \<and>
   term_cols (sample_env (prologue @ [STYLE_MARKER, ALIGN_LEFT_SET, 0x68, 0x69,
                                      STYLE_MARKER, ALIGN_RESET])) = 80"
  by (simp add: extract_def extract_from_def sample_env_def prologue_def
      FPaper_Extract_init_def get_terminal_size_def
      detect_def detect_style_def check_defs marker_defs decode_utf8_def emit_def
      left_def add_spaces_eq char_of_h char_of_i)

subsection \<open>The decoded text only grows\<close>

text \<open>
  C10: whatever the state of the decoder and whatever the byte, a call of
  \<^verbatim>\<open>detect\<close> that returns leaves the text decoded so far as a prefix of the text
  decoded after it. (A call that raises changes nothing.)
\<close>

theorem detect_appends_only:
  "detect e s ch = Inr s' \<Longrightarrow> prefix (extracted_text s) (extracted_text s')"
  unfolding detect_def
  by (auto split: if_splits sum.splits dest: detect_style_prefix)

theorem detect_appends_only_witness:
  "detect (sample_env [])
     ((FPaper_Extract_init (sample_env []) ''doc.fpaper'')
        \<lparr>extracted_text := ''A'', is_style_marker := True\<rparr>) BOLD_SET
   = Inr ((FPaper_Extract_init (sample_env []) ''doc.fpaper'')
        \<lparr>extracted_text := ''A'' @ ESC # ''[1m''\<rparr>) \<and>
   prefix ''A'' (''A'' @ ESC # ''[1m'')"
proof -
  have d: "detect (sample_env [])
     ((FPaper_Extract_init (sample_env []) ''doc.fpaper'')
        \<lparr>extracted_text := ''A'', is_style_marker := True\<rparr>) BOLD_SET
   = Inr ((FPaper_Extract_init (sample_env []) ''doc.fpaper'')
        \<lparr>extracted_text := ''A'' @ ESC # ''[1m''\<rparr>)"
    by (simp add: detect_def detect_style_def check_defs marker_defs emit_def
        FPaper_Extract_init_def get_terminal_size_def)
  from detect_appends_only [OF d] have "prefix ''A'' (''A'' @ ESC # ''[1m'')"
    by (simp add: FPaper_Extract_init_def get_terminal_size_def)
  with d show ?thesis by blast
qed

subsection \<open>The prologue\<close>

text \<open>
  A byte that is not the one the decoder waits for leaves the decoder where it is; the
  next byte is compared with the same expected byte. One lemma for each of the seven
  stages, the last one first: as long as the bytes still expected do not occur, in this
  order, among the bytes read, nothing is decoded.
\<close>

lemma stall_start_of_text:
  assumes "\<not> is_style_marker s"
    and "\<not> is_end_of_text s"
    and "is_start_marker s"
    and "is_start_marker_2 s"
    and "is_start_marker_3 s"
    and "is_start_marker_4 s"
    and "is_start_marker_5 s"
    and "is_start_marker_6 s"
    and "\<not> is_start_of_text s"
    and "\<not> subseq [START_OF_TEXT] bs"
  shows "\<exists>s'. extract_loop e s bs = Inr s' \<and> extracted_text s' = extracted_text s"
  using assms
proof (induction bs arbitrary: s)
  case Nil
  show ?case by simp
next
  case (Cons b bs)
  show ?case
  proof (cases "b = START_OF_TEXT")
    case True
    with Cons.prems show ?thesis by simp
  next
    case False
    with Cons.prems have n: "\<not> subseq [START_OF_TEXT] bs"
      by auto
    have "\<exists>s'. extract_loop e (s\<lparr>is_start_of_text := False\<rparr>) bs = Inr s' \<and>
        extracted_text s' = extracted_text (s\<lparr>is_start_of_text := False\<rparr>)"
      using Cons.prems n by (intro Cons.IH) simp_all
    with Cons.prems False show ?thesis
      by (simp add: detect_def check_defs)
  qed
qed

lemma stall_6:
  assumes "\<not> is_style_marker s"
    and "\<not> is_end_of_text s"
    and "is_start_marker s"
    and "is_start_marker_2 s"
    and "is_start_marker_3 s"
    and "is_start_marker_4 s"
    and "is_start_marker_5 s"
    and "\<not> is_start_marker_6 s"
    and "\<not> is_start_of_text s"
    and "\<not> subseq [START_MARKER_6, START_OF_TEXT] bs"
  shows "\<exists>s'. extract_loop e s bs = Inr s' \<and> extracted_text s' = extracted_text s"
  using assms
proof (induction bs arbitrary: s)
  case Nil
  show ?case by simp
next
  case (Cons b bs)
  show ?case
  proof (cases "b = START_MARKER_6")
    case True
    with Cons.prems have n: "\<not> subseq [START_OF_TEXT] bs"
      by simp
    have "\<exists>s'. extract_loop e (s\<lparr>is_start_marker_6 := True\<rparr>) bs = Inr s' \<and>
        extracted_text s' = extracted_text (s\<lparr>is_start_marker_6 := True\<rparr>)"
      using Cons.prems n by (intro stall_start_of_text) simp_all
    with Cons.prems True show ?thesis
      by (simp add: detect_def check_defs)
  next
    case False
    with Cons.prems have n: "\<not> subseq [START_MARKER_6, START_OF_TEXT] bs"
      by auto
    have "\<exists>s'. extract_loop e (s\<lparr>is_start_marker_6 := False\<rparr>) bs = Inr s' \<and>
        extracted_text s' = extracted_text (s\<lparr>is_start_marker_6 := False\<rparr>)"
      using Cons.prems n by (intro Cons.IH) simp_all
    with Cons.prems False show ?thesis
      by (simp add: detect_def check_defs)
  qed
qed

lemma stall_5:
  assumes "\<not> is_style_marker s"
    and "\<not> is_end_of_text s"
    and "is_start_marker s"
    and "is_start_marker_2 s"
    and "is_start_marker_3 s"
    and "is_start_marker_4 s"
    and "\<not> is_start_marker_5 s"
    and "\<not> is_start_marker_6 s"
    and "\<not> is_start_of_text s"
    and "\<not> subseq [START_MARKER_5, START_MARKER_6, START_OF_TEXT] bs"
  shows "\<exists>s'. extract_loop e s bs = Inr s' \<and> extracted_text s' = extracted_text s"
  using assms
proof (induction bs arbitrary: s)
  case Nil
  show ?case by simp
next
  case (Cons b bs)
  show ?case
  proof (cases "b = START_MARKER_5")
    case True
    with Cons.prems have n: "\<not> subseq [START_MARKER_6, START_OF_TEXT] bs"
      by simp
    have "\<exists>s'. extract_loop e (s\<lparr>is_start_marker_5 := True\<rparr>) bs = Inr s' \<and>
        extracted_text s' = extracted_text (s\<lparr>is_start_marker_5 := True\<rparr>)"
      using Cons.prems n by (intro stall_6) simp_all
    with Cons.prems True show ?thesis
      by (simp add: detect_def check_defs)
  next
    case False
    with Cons.prems have n: "\<not> subseq [START_MARKER_5, START_MARKER_6, START_OF_TEXT] bs"
      by auto
    have "\<exists>s'. extract_loop e (s\<lparr>is_start_marker_5 := False\<rparr>) bs = Inr s' \<and>
        extracted_text s' = extracted_text (s\<lparr>is_start_marker_5 := False\<rparr>)"
      using Cons.prems n by (intro Cons.IH) simp_all
    with Cons.prems False show ?thesis
      by (simp add: detect_def check_defs)
  qed
qed

lemma stall_4:
  assumes "\<not> is_style_marker s"
    and "\<not> is_end_of_text s"
    and "is_start_marker s"
    and "is_start_marker_2 s"
    and "is_start_marker_3 s"
    and "\<not> is_start_marker_4 s"
    and "\<not> is_start_marker_5 s"
    and "\<not> is_start_marker_6 s"
    and "\<not> is_start_of_text s"
    and "\<not> subseq [START_MARKER_4, START_MARKER_5, START_MARKER_6, START_OF_TEXT] bs"
  shows "\<exists>s'. extract_loop e s bs = Inr s' \<and> extracted_text s' = extracted_text s"
  using assms
proof (induction bs arbitrary: s)
  case Nil
  show ?case by simp
next
  case (Cons b bs)
  show ?case
  proof (cases "b = START_MARKER_4")
    case True
    with Cons.prems have n: "\<not> subseq [START_MARKER_5, START_MARKER_6, START_OF_TEXT] bs"
      by simp
    have "\<exists>s'. extract_loop e (s\<lparr>is_start_marker_4 := True\<rparr>) bs = Inr s' \<and>
        extracted_text s' = extracted_text (s\<lparr>is_start_marker_4 := True\<rparr>)"
      using Cons.prems n by (intro stall_5) simp_all
    with Cons.prems True show ?thesis
      by (simp add: detect_def check_defs)
  next
    case False
    with Cons.prems have n: "\<not> subseq [START_MARKER_4, START_MARKER_5, START_MARKER_6, START_OF_TEXT] bs"
      by auto
    have "\<exists>s'. extract_loop e (s\<lparr>is_start_marker_4 := False\<rparr>) bs = Inr s' \<and>
        extracted_text s' = extracted_text (s\<lparr>is_start_marker_4 := False\<rparr>)"
      using Cons.prems n by (intro Cons.IH) simp_all
    with Cons.prems False show ?thesis
      by (simp add: detect_def check_defs)
  qed
qed

lemma stall_3:
  assumes "\<not> is_style_marker s"
    and "\<not> is_end_of_text s"
    and "is_start_marker s"
    and "is_start_marker_2 s"
    and "\<not> is_start_marker_3 s"
    and "\<not> is_start_marker_4 s"
    and "\<not> is_start_marker_5 s"
    and "\<not> is_start_marker_6 s"
    and "\<not> is_start_of_text s"
    and "\<not> subseq [START_MARKER_3, START_MARKER_4, START_MARKER_5, START_MARKER_6, START_OF_TEXT] bs"
  shows "\<exists>s'. extract_loop e s bs = Inr s' \<and> extracted_text s' = extracted_text s"
  using assms
proof (induction bs arbitrary: s)
  case Nil
  show ?case by simp
next
  case (Cons b bs)
  show ?case
  proof (cases "b = START_MARKER_3")
    case True
    with Cons.prems have n: "\<not> subseq [START_MARKER_4, START_MARKER_5, START_MARKER_6, START_OF_TEXT] bs"
      by simp
    have "\<exists>s'. extract_loop e (s\<lparr>is_start_marker_3 := True\<rparr>) bs = Inr s' \<and>
        extracted_text s' = extracted_text (s\<lparr>is_start_marker_3 := True\<rparr>)"
      using Cons.prems n by (intro stall_4) simp_all
    with Cons.prems True show ?thesis
      by (simp add: detect_def check_defs)
  next
    case False
    with Cons.prems have n: "\<not> subseq [START_MARKER_3, START_MARKER_4, START_MARKER_5, START_MARKER_6, START_OF_TEXT] bs"
      by auto
    have "\<exists>s'. extract_loop e (s\<lparr>is_start_marker_3 := False\<rparr>) bs = Inr s' \<and>
        extracted_text s' = extracted_text (s\<lparr>is_start_marker_3 := False\<rparr>)"
      using Cons.prems n by (intro Cons.IH) simp_all
    with Cons.prems False show ?thesis
      by (simp add: detect_def check_defs)
  qed
qed

lemma stall_2:
  assumes "\<not> is_style_marker s"
    and "\<not> is_end_of_text s"
    and "is_start_marker s"
    and "\<not> is_start_marker_2 s"
    and "\<not> is_start_marker_3 s"
    and "\<not> is_start_marker_4 s"
    and "\<not> is_start_marker_5 s"
    and "\<not> is_start_marker_6 s"
    and "\<not> is_start_of_text s"
    and "\<not> subseq [START_MARKER_2, START_MARKER_3, START_MARKER_4, START_MARKER_5, START_MARKER_6, START_OF_TEXT] bs"
  shows "\<exists>s'. extract_loop e s bs = Inr s' \<and> extracted_text s' = extracted_text s"
  using assms
proof (induction bs arbitrary: s)
  case Nil
  show ?case by simp
next
  case (Cons b bs)
  show ?case
  proof (cases "b = START_MARKER_2")
    case True
    with Cons.prems have n: "\<not> subseq [START_MARKER_3, START_MARKER_4, START_MARKER_5, START_MARKER_6, START_OF_TEXT] bs"
      by simp
    have "\<exists>s'. extract_loop e (s\<lparr>is_start_marker_2 := True\<rparr>) bs = Inr s' \<and>
        extracted_text s' = extracted_text (s\<lparr>is_start_marker_2 := True\<rparr>)"
      using Cons.prems n by (intro stall_3) simp_all
    with Cons.prems True show ?thesis
      by (simp add: detect_def check_defs)
  next
    case False
    with Cons.prems have n: "\<not> subseq [START_MARKER_2, START_MARKER_3, START_MARKER_4, START_MARKER_5, START_MARKER_6, START_OF_TEXT] bs"
      by auto
    have "\<exists>s'. extract_loop e (s\<lparr>is_start_marker_2 := False\<rparr>) bs = Inr s' \<and>
        extracted_text s' = extracted_text (s\<lparr>is_start_marker_2 := False\<rparr>)"
      using Cons.prems n by (intro Cons.IH) simp_all
    with Cons.prems False show ?thesis
      by (simp add: detect_def check_defs)
  qed
qed

lemma stall_1:
  assumes "\<not> is_style_marker s"
    and "\<not> is_end_of_text s"
    and "\<not> is_start_marker s"
    and "\<not> is_start_marker_2 s"
    and "\<not> is_start_marker_3 s"
    and "\<not> is_start_marker_4 s"
    and "\<not> is_start_marker_5 s"
    and "\<not> is_start_marker_6 s"
    and "\<not> is_start_of_text s"
    and "\<not> subseq [START_MARKER, START_MARKER_2, START_MARKER_3, START_MARKER_4, START_MARKER_5, START_MARKER_6, START_OF_TEXT] bs"
  shows "\<exists>s'. extract_loop e s bs = Inr s' \<and> extracted_text s' = extracted_text s"
  using assms
proof (induction bs arbitrary: s)
  case Nil
  show ?case by simp
next
  case (Cons b bs)
  show ?case
  proof (cases "b = START_MARKER")
    case True
    with Cons.prems have n: "\<not> subseq [START_MARKER_2, START_MARKER_3, START_MARKER_4, START_MARKER_5, START_MARKER_6, START_OF_TEXT] bs"
      by simp
    have "\<exists>s'. extract_loop e (s\<lparr>is_start_marker := True\<rparr>) bs = Inr s' \<and>
        extracted_text s' = extracted_text (s\<lparr>is_start_marker := True\<rparr>)"
      using Cons.prems n by (intro stall_2) simp_all
    with Cons.prems True show ?thesis
      by (simp add: detect_def check_defs)
  next
    case False
    with Cons.prems have n: "\<not> subseq [START_MARKER, START_MARKER_2, START_MARKER_3, START_MARKER_4, START_MARKER_5, START_MARKER_6, START_OF_TEXT] bs"
      by auto
    have "\<exists>s'. extract_loop e (s\<lparr>is_start_marker := False\<rparr>) bs = Inr s' \<and>
        extracted_text s' = extracted_text (s\<lparr>is_start_marker := False\<rparr>)"
      using Cons.prems n by (intro Cons.IH) simp_all
    with Cons.prems False show ?thesis
      by (simp add: detect_def check_defs)
  qed
qed

text \<open>
  C3, as the spec has it: one wrong byte at a prologue position, and the decoder returns
  nothing whatever follows. It fails on the code: the stream below has \<open>0x00\<close> where
  the first prologue byte should be, then the whole prologue and the letter \<^verbatim>\<open>h\<close>;
  the decoder skips the wrong byte, finds its seven bytes after it and returns
  \<^verbatim>\<open>h\<close>.
\<close>

theorem wrong_first_byte_then_prologue_decodes:
  "(0x00 # prologue @ [0x68]) ! 0 \<noteq> START_MARKER \<and>
   extract (sample_env (0x00 # prologue @ [0x68]))
     (FPaper_Extract_init (sample_env (0x00 # prologue @ [0x68])) ''doc.fpaper'')
   = Inr ''h''"
  by (simp add: extract_def extract_from_def sample_env_def prologue_def
      FPaper_Extract_init_def get_terminal_size_def detect_def check_defs marker_defs
      decode_utf8_def char_of_h)

text \<open>
  C3, amended: a byte that differs from the expected prologue byte neither advances nor
  resets the decoder, which goes on waiting for the same byte. So a stream in which the
  six prologue bytes and the start of the text do not all occur in this order (with any
  bytes between them) is decoded to the empty text.
\<close>

theorem no_prologue_no_text:
  assumes "\<not> subseq prologue bs"
  shows "extract_from e (FPaper_Extract_init e fname) bs = Inr []"
proof -
  have p: "prologue = [START_MARKER, START_MARKER_2, START_MARKER_3, START_MARKER_4,
      START_MARKER_5, START_MARKER_6, START_OF_TEXT]"
    by (simp add: prologue_def marker_defs)
  have "\<exists>s'. extract_loop e (FPaper_Extract_init e fname) bs = Inr s' \<and>
      extracted_text s' = extracted_text (FPaper_Extract_init e fname)"
    using assms unfolding p
    by (intro stall_1) (simp_all add: FPaper_Extract_init_def get_terminal_size_def)
  then show ?thesis
    by (auto simp: extract_from_def FPaper_Extract_init_def get_terminal_size_def)
qed

theorem no_prologue_no_text_witness:
  "extract_from (sample_env []) (FPaper_Extract_init (sample_env []) ''doc.fpaper'')
     [0x02, 0x46, 0x50, 0x00, 0x67, 0x65, 0x26, 0x68, 0x69] = Inr []"
proof -
  have "\<not> subseq prologue [0x02, 0x46, 0x50, 0x00, 0x67, 0x65, 0x26, 0x68, 0x69]"
    by (simp add: prologue_def)
  from no_prologue_no_text [OF this] show ?thesis .
qed

subsection \<open>Text collected for an alignment that is never reset\<close>

lemma extract_loop_ended: "is_end_of_text s \<Longrightarrow> extract_loop e s bs = Inr s"
  by (cases bs) simp_all

lemma extract_loop_append:
  "extract_loop e s (as @ bs) =
     (case extract_loop e s as of Inl err \<Rightarrow> Inl err | Inr s1 \<Rightarrow> extract_loop e s1 bs)"
proof (induction as arbitrary: s)
  case Nil
  show ?case by simp
next
  case (Cons a as)
  show ?case
  proof (cases "is_end_of_text s")
    case True
    then show ?thesis by (simp add: extract_loop_ended)
  next
    case False
    then show ?thesis by (simp add: Cons.IH split: sum.splits)
  qed
qed

text \<open>
  The decoder enters the text region, and waits for a style argument, sees the end of
  the text or has an alignment set, only after all seven bytes of the prologue.
\<close>

lemma detect_style_flags:
  assumes "detect_style e s ch = Inr s'"
  shows "is_start_marker s' = is_start_marker s \<and> is_start_marker_2 s' = is_start_marker_2 s \<and>
     is_start_marker_3 s' = is_start_marker_3 s \<and> is_start_marker_4 s' = is_start_marker_4 s \<and>
     is_start_marker_5 s' = is_start_marker_5 s \<and> is_start_marker_6 s' = is_start_marker_6 s \<and>
     is_start_of_text s' = is_start_of_text s \<and> is_end_of_text s' = is_end_of_text s"
  using assms
  by (auto simp: detect_style_def emit_def left_def center_def right_def add_spaces_eq Let_def
      split: if_splits sum.splits)

lemma detect_in_text:
  assumes "detect e s ch = Inr s'"
    and "is_align s \<or> is_style_marker s \<or> is_end_of_text s \<longrightarrow>
      is_start_marker s \<and> is_start_marker_2 s \<and> is_start_marker_3 s \<and> is_start_marker_4 s \<and>
      is_start_marker_5 s \<and> is_start_marker_6 s \<and> is_start_of_text s"
  shows "is_align s' \<or> is_style_marker s' \<or> is_end_of_text s' \<longrightarrow>
      is_start_marker s' \<and> is_start_marker_2 s' \<and> is_start_marker_3 s' \<and> is_start_marker_4 s' \<and>
      is_start_marker_5 s' \<and> is_start_marker_6 s' \<and> is_start_of_text s'"
proof (cases "is_style_marker s")
  case True
  with assms(1) obtain s1 where d: "detect_style e s ch = Inr s1"
    and s': "s' = s1\<lparr>is_style_marker := False\<rparr>"
    by (auto simp: detect_def split: sum.splits)
  from detect_style_flags [OF d] assms(2) True s' show ?thesis
    by simp
next
  case False
  with assms show ?thesis
    by (auto simp: detect_def check_defs split: if_splits sum.splits)
qed

lemma extract_loop_in_text:
  assumes "extract_loop e s bs = Inr s'"
    and "is_align s \<or> is_style_marker s \<or> is_end_of_text s \<longrightarrow>
      is_start_marker s \<and> is_start_marker_2 s \<and> is_start_marker_3 s \<and> is_start_marker_4 s \<and>
      is_start_marker_5 s \<and> is_start_marker_6 s \<and> is_start_of_text s"
  shows "is_align s' \<or> is_style_marker s' \<or> is_end_of_text s' \<longrightarrow>
      is_start_marker s' \<and> is_start_marker_2 s' \<and> is_start_marker_3 s' \<and> is_start_marker_4 s' \<and>
      is_start_marker_5 s' \<and> is_start_marker_6 s' \<and> is_start_of_text s'"
  using assms
proof (induction bs arbitrary: s)
  case Nil
  then show ?case by simp
next
  case (Cons b bs)
  show ?case
  proof (cases "is_end_of_text s")
    case True
    with Cons.prems show ?thesis by simp
  next
    case False
    with Cons.prems(1) obtain s1 where d: "detect e s b = Inr s1"
      and l: "extract_loop e s1 bs = Inr s'"
      by (auto split: sum.splits)
    from Cons.IH [OF l detect_in_text [OF d Cons.prems(2)]] show ?thesis .
  qed
qed

text \<open>Literal bytes read while an alignment is set go to the scratch text only.\<close>

lemma literals_go_to_scratch:
  assumes "is_start_marker s" and "is_start_marker_2 s" and "is_start_marker_3 s"
    and "is_start_marker_4 s" and "is_start_marker_5 s" and "is_start_marker_6 s"
    and "is_start_of_text s" and "is_align s"
    and "\<not> is_style_marker s" and "\<not> is_end_of_text s"
    and "\<forall>b\<in>set lits. b < 0x80 \<and> b \<noteq> STYLE_MARKER \<and> b \<noteq> END_OF_TEXT"
  shows "extract_loop e s lits
     = Inr (s\<lparr>get_align_text := get_align_text s @ map (\<lambda>b. char_of (unat b)) lits\<rparr>)"
  using assms
proof (induction lits arbitrary: s)
  case Nil
  show ?case by simp
next
  case (Cons b lits)
  have d: "detect e s b = Inr (s\<lparr>get_align_text := get_align_text s @ [char_of (unat b)]\<rparr>)"
    using Cons.prems by (simp add: detect_def check_defs decode_utf8_def)
  have "extract_loop e (s\<lparr>get_align_text := get_align_text s @ [char_of (unat b)]\<rparr>) lits
     = Inr (s\<lparr>get_align_text := get_align_text s @ [char_of (unat b)]\<rparr>
          \<lparr>get_align_text :=
             get_align_text (s\<lparr>get_align_text := get_align_text s @ [char_of (unat b)]\<rparr>)
               @ map (\<lambda>b. char_of (unat b)) lits\<rparr>)"
    using Cons.prems by (intro Cons.IH) simp_all
  with d Cons.prems(10) show ?case by simp
qed

text \<open>
  Two decoders that differ in the scratch text only stay so, byte after byte, as long as
  no alignment reset is carried out, and raise on the same bytes.
\<close>

lemma detect_style_scratch:
  assumes "ch \<noteq> ALIGN_RESET"
  shows "map_sum id (\<lambda>x. x\<lparr>get_align_text := []\<rparr>) (detect_style e (s\<lparr>get_align_text := t\<rparr>) ch)
     = map_sum id (\<lambda>x. x\<lparr>get_align_text := []\<rparr>) (detect_style e s ch)"
  using assms
  by (simp add: detect_style_def check_defs emit_def Let_def split: sum.splits)

lemma scratch_clear_flag:
  "a\<lparr>get_align_text := []\<rparr> = b\<lparr>get_align_text := []\<rparr> \<Longrightarrow>
   a\<lparr>is_style_marker := False, get_align_text := []\<rparr>
     = b\<lparr>is_style_marker := False, get_align_text := []\<rparr>"
  by (cases a, cases b) simp

lemma detect_scratch:
  assumes "\<not> (is_style_marker s \<and> ch = ALIGN_RESET)"
  shows "map_sum id (\<lambda>x. x\<lparr>get_align_text := []\<rparr>) (detect e (s\<lparr>get_align_text := t\<rparr>) ch)
     = map_sum id (\<lambda>x. x\<lparr>get_align_text := []\<rparr>) (detect e s ch)"
proof (cases "is_style_marker s")
  case True
  with assms have "ch \<noteq> ALIGN_RESET" by simp
  from detect_style_scratch [OF this, where e = e and s = s and t = t] True show ?thesis
    by (auto simp: detect_def split: sum.splits intro: scratch_clear_flag)
next
  case False
  then show ?thesis
    by (simp add: detect_def split: sum.splits)
qed

lemma same_but_scratch:
  "a\<lparr>get_align_text := []\<rparr> = b\<lparr>get_align_text := []\<rparr> \<Longrightarrow> a = b\<lparr>get_align_text := get_align_text a\<rparr>"
  by (cases a, cases b) simp

lemma extract_loop_scratch:
  assumes "s'\<lparr>get_align_text := []\<rparr> = s\<lparr>get_align_text := []\<rparr>"
    and "\<forall>k<length bs. \<forall>sk. extract_loop e s (take k bs) = Inr sk \<and> is_style_marker sk
           \<longrightarrow> bs ! k \<noteq> ALIGN_RESET"
  shows "extract_from e s' bs = extract_from e s bs"
  using assms
proof (induction bs arbitrary: s s')
  case Nil
  then have "extracted_text (s'\<lparr>get_align_text := []\<rparr>) = extracted_text (s\<lparr>get_align_text := []\<rparr>)"
    by simp
  then show ?case by (simp add: extract_from_def)
next
  case (Cons b bs)
  from Cons.prems(1)
  have t: "extracted_text (s'\<lparr>get_align_text := []\<rparr>) = extracted_text (s\<lparr>get_align_text := []\<rparr>)"
    and n: "is_end_of_text (s'\<lparr>get_align_text := []\<rparr>) = is_end_of_text (s\<lparr>get_align_text := []\<rparr>)"
    by simp_all
  show ?case
  proof (cases "is_end_of_text s")
    case True
    with t n show ?thesis by (simp add: extract_from_def)
  next
    case False
    from Cons.prems(2) have "extract_loop e s (take 0 (b # bs)) = Inr s \<and> is_style_marker s
        \<longrightarrow> (b # bs) ! 0 \<noteq> ALIGN_RESET"
      by blast
    then have g: "\<not> (is_style_marker s \<and> b = ALIGN_RESET)"
      by simp
    have s': "s' = s\<lparr>get_align_text := get_align_text s'\<rparr>"
      using same_but_scratch [OF Cons.prems(1)] .
    have m: "map_sum id (\<lambda>x. x\<lparr>get_align_text := []\<rparr>) (detect e s' b)
        = map_sum id (\<lambda>x. x\<lparr>get_align_text := []\<rparr>) (detect e s b)"
      using detect_scratch [OF g, where e = e and t = "get_align_text s'"] s' by simp
    show ?thesis
    proof (cases "detect e s b")
      case (Inl err)
      with m have "detect e s' b = Inl err"
        by (cases "detect e s' b") simp_all
      with Inl False n show ?thesis
        by (simp add: extract_from_def)
    next
      case (Inr s1)
      with m obtain s1' where d': "detect e s' b = Inr s1'"
        and r: "s1'\<lparr>get_align_text := []\<rparr> = s1\<lparr>get_align_text := []\<rparr>"
        by (cases "detect e s' b") simp_all
      have h: "\<forall>k<length bs. \<forall>sk. extract_loop e s1 (take k bs) = Inr sk \<and> is_style_marker sk
           \<longrightarrow> bs ! k \<noteq> ALIGN_RESET"
      proof (intro allI impI)
        fix k sk
        assume k: "k < length bs"
          and sk: "extract_loop e s1 (take k bs) = Inr sk \<and> is_style_marker sk"
        from k have "Suc k < length (b # bs)" by simp
        moreover from sk False Inr
        have "extract_loop e s (take (Suc k) (b # bs)) = Inr sk \<and> is_style_marker sk"
          by simp
        ultimately have "(b # bs) ! Suc k \<noteq> ALIGN_RESET"
          using Cons.prems(2) by blast
        then show "bs ! k \<noteq> ALIGN_RESET" by simp
      qed
      from Cons.IH [OF r h] Inr d' False n show ?thesis
        by (simp add: extract_from_def)
    qed
  qed
qed

text \<open>
  C9. Let the decoder, started on a file, have read the bytes \<open>pre\<close> and be in the text
  with an alignment set (not waiting for a style argument, the end of the text not seen).
  Let \<open>lits\<close> be literal bytes (below \<open>0x80\<close>, neither the style marker nor the end
  of the text), and let the rest \<open>suf\<close> of the file carry out no alignment reset:
  wherever the decoder waits for a style argument in it, the next byte is not the
  reset code. Then the text returned is the same as for the file without \<open>lits\<close>. In
  particular, if the file ends after \<open>lits\<close>, or goes on with the end-of-text byte,
  the text returned is what had been decoded before \<open>lits\<close>.
\<close>

theorem unreset_alignment_text_is_dropped:
  assumes "extract_loop e (FPaper_Extract_init e fname) pre = Inr s"
    and "is_align s" and "\<not> is_style_marker s" and "\<not> is_end_of_text s"
    and "\<forall>b\<in>set lits. b < 0x80 \<and> b \<noteq> STYLE_MARKER \<and> b \<noteq> END_OF_TEXT"
    and "\<forall>k<length suf. \<forall>sk. extract_loop e s (take k suf) = Inr sk \<and> is_style_marker sk
           \<longrightarrow> suf ! k \<noteq> ALIGN_RESET"
  shows "extract_from e (FPaper_Extract_init e fname) (pre @ lits @ suf)
       = extract_from e (FPaper_Extract_init e fname) (pre @ suf) \<and>
     extract_from e (FPaper_Extract_init e fname) (pre @ lits) = Inr (extracted_text s) \<and>
     extract_from e (FPaper_Extract_init e fname) (pre @ lits @ END_OF_TEXT # rest)
       = Inr (extracted_text s)"
proof -
  let ?init = "FPaper_Extract_init e fname"
  let ?lit = "s\<lparr>get_align_text := get_align_text s @ map (\<lambda>b. char_of (unat b)) lits\<rparr>"
  have "is_align ?init \<or> is_style_marker ?init \<or> is_end_of_text ?init \<longrightarrow>
      is_start_marker ?init \<and> is_start_marker_2 ?init \<and> is_start_marker_3 ?init \<and>
      is_start_marker_4 ?init \<and> is_start_marker_5 ?init \<and> is_start_marker_6 ?init \<and>
      is_start_of_text ?init"
    by (simp add: FPaper_Extract_init_def get_terminal_size_def)
  from extract_loop_in_text [OF assms(1) this] assms(2)
  have f: "is_start_marker s" "is_start_marker_2 s" "is_start_marker_3 s" "is_start_marker_4 s"
    "is_start_marker_5 s" "is_start_marker_6 s" "is_start_of_text s"
    by simp_all
  have l: "extract_loop e s lits = Inr ?lit"
    using f assms(2-5) by (intro literals_go_to_scratch) simp_all
  have pre: "extract_from e ?init (pre @ bs) = extract_from e s bs" for bs
    using assms(1) by (simp add: extract_from_def extract_loop_append)
  have lit: "extract_from e s (lits @ bs) = extract_from e ?lit bs" for bs
    using l by (simp add: extract_from_def extract_loop_append)
  have r: "?lit\<lparr>get_align_text := []\<rparr> = s\<lparr>get_align_text := []\<rparr>"
    by simp
  have 1: "extract_from e ?init (pre @ lits @ suf) = extract_from e ?init (pre @ suf)"
    using extract_loop_scratch [OF r assms(6)] by (simp add: pre lit)
  have 2: "extract_from e ?init (pre @ lits) = Inr (extracted_text s)"
    using pre [of lits] l by (simp add: extract_from_def)
  have "extract_from e ?lit (END_OF_TEXT # rest) = Inr (extracted_text s)"
    using f assms(3,4)
    by (simp add: extract_from_def detect_def check_defs marker_defs extract_loop_ended)
  then have 3: "extract_from e ?init (pre @ lits @ END_OF_TEXT # rest) = Inr (extracted_text s)"
    by (simp add: pre lit)
  from 1 2 3 show ?thesis by blast
qed

theorem unreset_alignment_text_is_dropped_witness:
  "extract_from (sample_env []) (FPaper_Extract_init (sample_env []) ''doc.fpaper'')
     ((prologue @ [0x41, STYLE_MARKER, ALIGN_LEFT_SET]) @ [0x68, 0x69] @ [STYLE_MARKER, BOLD_SET])
   = extract_from (sample_env []) (FPaper_Extract_init (sample_env []) ''doc.fpaper'')
     ((prologue @ [0x41, STYLE_MARKER, ALIGN_LEFT_SET]) @ [STYLE_MARKER, BOLD_SET]) \<and>
   extract_from (sample_env []) (FPaper_Extract_init (sample_env []) ''doc.fpaper'')
     ((prologue @ [0x41, STYLE_MARKER, ALIGN_LEFT_SET]) @ [0x68, 0x69]) = Inr ''A'' \<and>
   extract_from (sample_env []) (FPaper_Extract_init (sample_env []) ''doc.fpaper'')
     ((prologue @ [0x41, STYLE_MARKER, ALIGN_LEFT_SET]) @ [0x68, 0x69] @ END_OF_TEXT # [0x42])
   = Inr ''A''"
proof -
  let ?init = "FPaper_Extract_init (sample_env []) ''doc.fpaper''"
  let ?s = "?init\<lparr>extracted_text := ''A'', is_start_marker := True, is_start_marker_2 := True,
      is_start_marker_3 := True, is_start_marker_4 := True, is_start_marker_5 := True,
      is_start_marker_6 := True, is_start_of_text := True, is_align := True,
      is_left_align := True\<rparr>"
  have p: "extract_loop (sample_env []) ?init (prologue @ [0x41, STYLE_MARKER, ALIGN_LEFT_SET])
      = Inr ?s"
    by code_simp
  have a: "is_align ?s" and b: "\<not> is_style_marker ?s" and c: "\<not> is_end_of_text ?s"
    by (simp_all add: FPaper_Extract_init_def get_terminal_size_def)
  have d: "\<forall>b\<in>set [0x68, 0x69 :: byte]. b < 0x80 \<and> b \<noteq> STYLE_MARKER \<and> b \<noteq> END_OF_TEXT"
    by (simp add: marker_defs)
  have h: "\<forall>k<length [STYLE_MARKER, BOLD_SET]. \<forall>sk.
      extract_loop (sample_env []) ?s (take k [STYLE_MARKER, BOLD_SET]) = Inr sk \<and>
      is_style_marker sk \<longrightarrow> [STYLE_MARKER, BOLD_SET] ! k \<noteq> ALIGN_RESET"
  proof (intro allI impI)
    fix k sk
    assume "k < length [STYLE_MARKER, BOLD_SET]"
    then have "k = 0 \<or> k = 1" by auto
    moreover assume "extract_loop (sample_env []) ?s (take k [STYLE_MARKER, BOLD_SET]) = Inr sk \<and>
      is_style_marker sk"
    ultimately show "[STYLE_MARKER, BOLD_SET] ! k \<noteq> ALIGN_RESET"
      by (auto simp: marker_defs)
  qed
  from unreset_alignment_text_is_dropped [OF p a b c d h, of "[0x42]"]
  show ?thesis
    by (simp add: FPaper_Extract_init_def get_terminal_size_def)
qed

subsection \<open>The key loop\<close>

lemma of_char_q: "(of_char CHR ''q'' :: nat) = 113"
  by simp

lemma of_char_Q: "(of_char CHR ''Q'' :: nat) = 81"
  by simp

lemma lower_is_q: "lower c = CHR ''q'' \<longleftrightarrow> c = CHR ''q'' \<or> c = CHR ''Q''"
proof (cases "65 \<le> (of_char c :: nat) \<and> (of_char c :: nat) \<le> 90")
  case True
  then have l: "lower c = char_of ((of_char c :: nat) + 32)"
    by (simp add: lower_def)
  have "char_of ((of_char c :: nat) + 32) = CHR ''q''
      \<longleftrightarrow> (of_char (char_of ((of_char c :: nat) + 32)) :: nat) = of_char CHR ''q''"
    by (simp only: of_char_eq_iff)
  also have "\<dots> \<longleftrightarrow> (of_char c :: nat) = 81"
    using True by simp
  also have "\<dots> \<longleftrightarrow> c = CHR ''Q''"
    by (simp only: of_char_Q [symmetric] of_char_eq_iff)
  finally have "lower c = CHR ''q'' \<longleftrightarrow> c = CHR ''Q''"
    using l by simp
  moreover have "c \<noteq> CHR ''q''"
    using True by auto
  ultimately show ?thesis by simp
next
  case False
  then have "lower c = c"
    by (auto simp: lower_def)
  moreover have "c \<noteq> CHR ''Q''"
    using False by auto
  ultimately show ?thesis by simp
qed






text \<open>The sample pager is what the constructor makes of a file of five lines.\<close>

lemma Totem_init_sample:
  "Totem_init (sample_env (prologue @ [0x61, 0x0A, 0x62, 0x0A, 0x63, 0x0A, 0x64, 0x0A, 0x65]))
     ''doc.fpaper'' = Inr sample_totem"
  by code_simp




text \<open>
  C6, as the spec has it: a key that is neither \<^verbatim>\<open>q\<close> nor an arrow is ignored and
  is the only character read, so that the next key is looked at as usual. It fails on the
  code: after \<^verbatim>\<open>x\<close> the loop reads two more characters without looking at them,
  so a \<^verbatim>\<open>q\<close> typed next does not end the loop.
\<close>

theorem key_after_other_key_is_swallowed:
  "key_loop sample_totem ''xq'' = Waiting sample_totem \<and>
   key_loop sample_totem ''q'' = Quit sample_totem"
  by (simp add: lower_is_q)

text \<open>
  C6, amended: after a first character other than \<^verbatim>\<open>q\<close> and \<^verbatim>\<open>Q\<close> the loop
  reads two more characters, whatever the first one was; it waits as long as they are
  missing. If the third character is neither \<^verbatim>\<open>A\<close> nor \<^verbatim>\<open>B\<close>, the state
  is unchanged and the loop goes on with the fourth character.
\<close>

theorem other_key_consumes_three_reads:
  assumes "c1 \<noteq> CHR ''q''" and "c1 \<noteq> CHR ''Q''"
  shows "key_loop t [c1] = Waiting t \<and> key_loop t [c1, c2] = Waiting t \<and>
     key_loop t (c1 # c2 # c3 # rest) = key_loop (scroll t c3) rest \<and>
     (c3 \<noteq> CHR ''A'' \<and> c3 \<noteq> CHR ''B'' \<longrightarrow>
        key_loop t (c1 # c2 # c3 # rest) = key_loop t rest)"
  using assms by (simp add: lower_is_q scroll_def)

theorem other_key_consumes_three_reads_witness:
  "CHR ''x'' \<noteq> CHR ''q'' \<and> CHR ''x'' \<noteq> CHR ''Q'' \<and>
   CHR ''z'' \<noteq> CHR ''A'' \<and> CHR ''z'' \<noteq> CHR ''B'' \<and>
   key_loop sample_totem ''x'' = Waiting sample_totem \<and>
   key_loop sample_totem ''xy'' = Waiting sample_totem \<and>
   key_loop sample_totem ''xyzq'' = Quit sample_totem"
proof -
  have a: "CHR ''x'' \<noteq> CHR ''q''" and b: "CHR ''x'' \<noteq> CHR ''Q''"
    and c: "CHR ''z'' \<noteq> CHR ''A'' \<and> CHR ''z'' \<noteq> CHR ''B''"
    by simp_all
  have q: "key_loop sample_totem ''q'' = Quit sample_totem"
    by (simp add: lower_is_q)
  from other_key_consumes_three_reads [OF a b, of sample_totem "CHR ''y''" "CHR ''z''" "''q''"] c q
  show ?thesis by (simp add: lower_is_q)
qed



end
